theory Spec2Isabelle
  imports Main "HOL-Library.Multiset"
begin

section \<open>Strings\<close>

text \<open>
  JavaScript strings are modelled as \<open>string\<close>; a \<open>char\<close> stands for one code unit in
  the Latin-1 range.  \<open>is_ws\<close> lists the characters of that range that
  \<open>String.prototype.trim\<close> strips (white space and line terminators).
\<close>

definition is_ws :: "char \<Rightarrow> bool" where
  "is_ws c = (c \<in> set [CHR 0x09, CHR 0x0A, CHR 0x0B, CHR 0x0C, CHR 0x0D, CHR 0x20, CHR 0xA0])"

definition trim :: "string \<Rightarrow> string" where
  "trim s = rev (dropWhile is_ws (rev (dropWhile is_ws s)))"

definition lower_char :: "char \<Rightarrow> char" where
  "lower_char c =
     (let n = (of_char c :: nat)
      in if (65 \<le> n \<and> n \<le> 90) \<or> (192 \<le> n \<and> n \<le> 222 \<and> n \<noteq> 215)
         then char_of (n + 32) else c)"

definition toLowerCase :: "string \<Rightarrow> string" where
  "toLowerCase s = map lower_char s"

text \<open>\<open>url.indexOf(m)\<close>: the position of the first occurrence; \<open>None\<close> stands for \<open>-1\<close>.\<close>

fun indexOf :: "string \<Rightarrow> string \<Rightarrow> nat option" where
  "indexOf [] m = (if m = [] then Some 0 else None)"
| "indexOf (c # cs) m =
     (if take (length m) (c # cs) = m then Some 0 else map_option Suc (indexOf cs m))"

definition contains :: "string \<Rightarrow> string \<Rightarrow> bool" where
  "contains u m = (\<exists>p s. u = p @ m @ s)"

section \<open>Helpers of server.js\<close>

definition marker :: string where
  "marker = ''/side-quest-images/''"

text \<open>\<open>urlToStoragePath\<close> (server.js, lines 258 to 263).\<close>

definition urlToStoragePath :: "string \<Rightarrow> string" where
  "urlToStoragePath url =
     (case indexOf url marker of
        Some idx \<Rightarrow> drop (idx + length marker) url
      | None \<Rightarrow> url)"

text \<open>
  The public URL that the storage client's \<open>getPublicUrl\<close> hands back to \<open>uploadImage\<close>.
  The client library is not part of server.js; the shape is the one documented in the
  comment of \<open>urlToStoragePath\<close> (line 259):
  \<^verbatim>\<open>https://<project>.supabase.co/storage/v1/object/public/side-quest-images/<filename>\<close>.
\<close>

definition buildPublicUrl :: "string \<Rightarrow> string \<Rightarrow> string" where
  "buildPublicUrl proj filename =
     ''https://'' @ proj @
     ''.supabase.co/storage/v1/object/public/side-quest-images/'' @ filename"

section \<open>Data model\<close>

datatype js_error = JsError (message: string)

type_synonym card_id = string

text \<open>The object handed to \<open>insert\<close> (lines 143 to 150), and a stored row of table \<open>cards\<close>.\<close>

record draft =
  business_name :: string
  employee_name :: string
  webpage_url :: "string option"
  description :: string
  cover_image_url :: "string option"
  product_image_urls :: "string list option"

record card = draft +
  card_id :: card_id
  created_at :: int
  expires_at :: int

text \<open>A file as multer presents it; the bytes of the buffer are never inspected.\<close>

record upfile =
  fieldname :: string
  mimetype :: string
  buffer_size :: nat

record req_files =
  coverImage :: "upfile list option"
  productImages :: "upfile list option"

text \<open>The text fields of the multipart body of POST /cards; \<open>None\<close> is \<open>undefined\<close>.\<close>

record cards_body =
  businessName :: "string option"
  employeeName :: "string option"
  webpageUrl :: "string option"
  descriptionIn :: "string option"

datatype body =
    ErrorBody string
  | CardBody card
  | CardsBody "card list"
  | SuccessBody
  | CleanupBody nat
  | PolishedBody string

type_synonym response = "nat \<times> body"

section \<open>The external services\<close>

text \<open>
  Every call to the record store or the object store is awaited.  The promise is
  rejected (an exception at the \<open>await\<close>), or it resolves to an object with a non-null
  \<open>error\<close>, or it resolves to an object with \<open>error = null\<close> and the data.
\<close>

datatype 'a awaited = Rejected js_error | Failed js_error | Ok 'a

datatype fault = NoFault | ErrorValue js_error | Thrown js_error

text \<open>The calls that change the object store or the table, in the order issued.\<close>

datatype call =
    StorageUpload string string
  | StorageRemove "string list"
  | CardsInsert draft
  | CardsDelete card_id

record world =
  cards_table :: "card list"
  calls :: "call list"

text \<open>
  What the handlers cannot decide themselves: the clock, the faults of the services, the
  random part of a file name, and the columns the table fills in by default.
\<close>

record services =
  now :: int
  select_fault :: fault
  upload_fault :: "string \<Rightarrow> fault"
  remove_fault :: "string list \<Rightarrow> fault"
  insert_fault :: "draft \<Rightarrow> fault"
  delete_fault :: "card_id \<Rightarrow> fault"
  stamp :: "nat \<Rightarrow> string"
  project :: string
  row_defaults :: "draft \<Rightarrow> card_id \<times> int \<times> int"

definition logged :: "call \<Rightarrow> world \<Rightarrow> world" where
  "logged c w = w\<lparr>calls := calls w @ [c]\<rparr>"

subsection \<open>Query operators of the record store\<close>

definition gt_expires_at :: "int \<Rightarrow> card list \<Rightarrow> card list" where
  "gt_expires_at t rows = filter (\<lambda>c. t < expires_at c) rows"

definition lt_expires_at :: "int \<Rightarrow> card list \<Rightarrow> card list" where
  "lt_expires_at t rows = filter (\<lambda>c. expires_at c < t) rows"

definition eq_id :: "card_id \<Rightarrow> card list \<Rightarrow> card list" where
  "eq_id ident rows = filter (\<lambda>c. card_id c = ident) rows"

definition order_created_at_desc :: "card list \<Rightarrow> card list" where
  "order_created_at_desc rows = sort_key (\<lambda>c. - created_at c) rows"

definition select_cards :: "services \<Rightarrow> (card list \<Rightarrow> card list) \<Rightarrow> world \<Rightarrow> card list awaited" where
  "select_cards svc query w =
     (case select_fault svc of
        Thrown e \<Rightarrow> Rejected e
      | ErrorValue e \<Rightarrow> Failed e
      | NoFault \<Rightarrow> Ok (query (cards_table w)))"

text \<open>
  \<open>.single()\<close> of the client library: the result must be exactly one row, otherwise the
  call resolves with an error and no data.
\<close>

definition single :: "card list awaited \<Rightarrow> card option awaited" where
  "single r =
     (case r of
        Rejected e \<Rightarrow> Rejected e
      | Failed e \<Rightarrow> Failed e
      | Ok rows \<Rightarrow>
          (case rows of
             [row] \<Rightarrow> Ok (Some row)
           | _ \<Rightarrow> Failed (JsError ''JSON object requested, multiple (or no) rows returned'')))"

definition storage_remove :: "services \<Rightarrow> string list \<Rightarrow> world \<Rightarrow> unit awaited \<times> world" where
  "storage_remove svc paths w =
     (let w' = logged (StorageRemove paths) w
      in case remove_fault svc paths of
           Thrown e \<Rightarrow> (Rejected e, w')
         | ErrorValue e \<Rightarrow> (Failed e, w')
         | NoFault \<Rightarrow> (Ok (), w'))"

definition cards_delete :: "services \<Rightarrow> card_id \<Rightarrow> world \<Rightarrow> unit awaited \<times> world" where
  "cards_delete svc ident w =
     (let w' = logged (CardsDelete ident) w
      in case delete_fault svc ident of
           Thrown e \<Rightarrow> (Rejected e, w')
         | ErrorValue e \<Rightarrow> (Failed e, w')
         | NoFault \<Rightarrow>
             (Ok (), w'\<lparr>cards_table := filter (\<lambda>c. card_id c \<noteq> ident) (cards_table w')\<rparr>))"

definition stored :: "services \<Rightarrow> draft \<Rightarrow> card" where
  "stored svc d =
     (case row_defaults svc d of
        (ident, created, expires) \<Rightarrow>
          \<lparr>business_name = business_name d, employee_name = employee_name d,
           webpage_url = webpage_url d, description = description d,
           cover_image_url = cover_image_url d, product_image_urls = product_image_urls d,
           card_id = ident, created_at = created, expires_at = expires\<rparr>)"

definition cards_insert :: "services \<Rightarrow> draft \<Rightarrow> world \<Rightarrow> card awaited \<times> world" where
  "cards_insert svc d w =
     (let w' = logged (CardsInsert d) w
      in case insert_fault svc d of
           Thrown e \<Rightarrow> (Rejected e, w')
         | ErrorValue e \<Rightarrow> (Failed e, w')
         | NoFault \<Rightarrow> (Ok (stored svc d), w'\<lparr>cards_table := cards_table w' @ [stored svc d]\<rparr>))"

section \<open>Upload middleware (lines 17 to 28 and 113 to 116)\<close>

definition allowed :: "string list" where
  "allowed = [''image/jpeg'', ''image/jpg'', ''image/png'']"

definition fileFilter :: "upfile \<Rightarrow> bool" where
  "fileFilter f = (toLowerCase (mimetype f) \<in> set allowed)"

definition fileSize :: nat where
  "fileSize = 10 * 1024 * 1024"

definition maxCount :: "string \<Rightarrow> nat option" where
  "maxCount name =
     (if name = ''coverImage'' then Some 1
      else if name = ''productImages'' then Some 10
      else None)"

text \<open>
  multer reads the file parts of the request in order and hands the first violation to
  the framework's error handling; the route handler then never runs.  The second
  argument holds the files accepted so far.
\<close>

fun multer_scan :: "upfile list \<Rightarrow> upfile list \<Rightarrow> js_error + upfile list" where
  "multer_scan [] acc = Inr acc"
| "multer_scan (f # rest) acc =
     (case maxCount (fieldname f) of
        None \<Rightarrow> Inl (JsError ''Unexpected field'')
      | Some n \<Rightarrow>
          if n \<le> length (filter (\<lambda>g. fieldname g = fieldname f) acc)
            then Inl (JsError ''Unexpected field'')
          else if \<not> fileFilter f
            then Inl (JsError ''Only JPEG and PNG images are allowed'')
          else if fileSize < buffer_size f
            then Inl (JsError ''File too large'')
          else multer_scan rest (acc @ [f]))"

definition files_of :: "string \<Rightarrow> upfile list \<Rightarrow> upfile list option" where
  "files_of name fs =
     (case filter (\<lambda>g. fieldname g = name) fs of [] \<Rightarrow> None | g # gs \<Rightarrow> Some (g # gs))"

section \<open>Handlers\<close>

subsection \<open>uploadImage (lines 237 to 255)\<close>

definition uploadImage :: "services \<Rightarrow> upfile \<Rightarrow> world \<Rightarrow> (js_error + string) \<times> world" where
  "uploadImage svc f w =
     (let ext = (if mimetype f = ''image/png'' then ''png'' else ''jpg'');
          filename = stamp svc (length (calls w)) @ ''.'' @ ext;
          w' = logged (StorageUpload filename (mimetype f)) w
      in case upload_fault svc filename of
           Thrown e \<Rightarrow> (Inl e, w')
         | ErrorValue e \<Rightarrow> (Inl e, w')
         | NoFault \<Rightarrow> (Inr (buildPublicUrl (project svc) filename), w'))"

subsection \<open>POST /cards (lines 113 to 161)\<close>

fun upload_each ::
  "services \<Rightarrow> upfile list \<Rightarrow> string list \<Rightarrow> world \<Rightarrow> (js_error + string list) \<times> world" where
  "upload_each svc [] productImageUrls w = (Inr productImageUrls, w)"
| "upload_each svc (f # fs) productImageUrls w =
     (case uploadImage svc f w of
        (Inl e, w') \<Rightarrow> (Inl e, w')
      | (Inr url, w') \<Rightarrow> upload_each svc fs (productImageUrls @ [url]) w')"

definition upload_cover :: "services \<Rightarrow> req_files \<Rightarrow> world \<Rightarrow> (js_error + string option) \<times> world" where
  "upload_cover svc files w =
     (case coverImage files of
        Some (f # fs) \<Rightarrow>
          (case uploadImage svc f w of
             (Inl e, w') \<Rightarrow> (Inl e, w')
           | (Inr url, w') \<Rightarrow> (Inr (Some url), w'))
      | _ \<Rightarrow> (Inr None, w))"

definition falsy :: "string option \<Rightarrow> bool" where
  "falsy v = (case v of None \<Rightarrow> True | Some s \<Rightarrow> s = [])"

definition create_failed :: "js_error \<Rightarrow> response" where
  "create_failed err =
     (500, ErrorBody (if message err = [] then ''Failed to create card'' else message err))"

definition required_missing :: response where
  "required_missing =
     (400, ErrorBody ''businessName, employeeName, and description are required'')"

text \<open>The body of the handler after the check of the required fields.\<close>

definition create_card ::
  "services \<Rightarrow> string \<Rightarrow> string \<Rightarrow> string option \<Rightarrow> string \<Rightarrow> req_files \<Rightarrow> world
     \<Rightarrow> response \<times> world" where
  "create_card svc bn en wu d files w =
     (case upload_cover svc files w of
        (Inl err, w1) \<Rightarrow> (create_failed err, w1)
      | (Inr coverImageUrl, w1) \<Rightarrow>
          (case upload_each svc (case productImages files of Some fs \<Rightarrow> fs | None \<Rightarrow> []) [] w1 of
             (Inl err, w2) \<Rightarrow> (create_failed err, w2)
           | (Inr productImageUrls, w2) \<Rightarrow>
               (case cards_insert svc
                       \<lparr>business_name = bn, employee_name = en,
                        webpage_url = (if falsy wu then None else wu),
                        description = d, cover_image_url = coverImageUrl,
                        product_image_urls = Some productImageUrls\<rparr> w2 of
                  (Rejected err, w3) \<Rightarrow> (create_failed err, w3)
                | (Failed err, w3) \<Rightarrow> (create_failed err, w3)
                | (Ok row, w3) \<Rightarrow> ((201, CardBody row), w3))))"

definition post_cards :: "services \<Rightarrow> cards_body \<Rightarrow> req_files \<Rightarrow> world \<Rightarrow> response \<times> world" where
  "post_cards svc b files w =
     (case businessName b of
        None \<Rightarrow> (required_missing, w)
      | Some bn \<Rightarrow>
          (case employeeName b of
             None \<Rightarrow> (required_missing, w)
           | Some en \<Rightarrow>
               (case descriptionIn b of
                  None \<Rightarrow> (required_missing, w)
                | Some d \<Rightarrow>
                    if bn = [] \<or> en = [] \<or> d = [] then (required_missing, w)
                    else create_card svc bn en (webpageUrl b) d files w)))"

text \<open>The route: the upload middleware, then the handler.  \<open>Inl\<close>: the middleware refused.\<close>

definition post_cards_route ::
  "services \<Rightarrow> cards_body \<Rightarrow> upfile list \<Rightarrow> world \<Rightarrow> (js_error + response) \<times> world" where
  "post_cards_route svc b parts w =
     (case multer_scan parts [] of
        Inl e \<Rightarrow> (Inl e, w)
      | Inr fs \<Rightarrow>
          (case post_cards svc b
                  \<lparr>coverImage = files_of ''coverImage'' fs,
                   productImages = files_of ''productImages'' fs\<rparr> w of
             (r, w') \<Rightarrow> (Inr r, w')))"

subsection \<open>GET /cards (lines 96 to 110)\<close>

definition get_cards :: "services \<Rightarrow> world \<Rightarrow> response" where
  "get_cards svc w =
     (case select_cards svc (\<lambda>rows. order_created_at_desc (gt_expires_at (now svc) rows)) w of
        Rejected err \<Rightarrow> (500, ErrorBody ''Failed to fetch cards'')
      | Failed err \<Rightarrow> (500, ErrorBody ''Failed to fetch cards'')
      | Ok data \<Rightarrow> (200, CardsBody data))"

subsection \<open>DELETE /cards/:id (lines 164 to 202)\<close>

definition imagesToDelete :: "card \<Rightarrow> string list" where
  "imagesToDelete c =
     (case cover_image_url c of
        None \<Rightarrow> []
      | Some u \<Rightarrow> if u = [] then [] else [urlToStoragePath u])
     @ (case product_image_urls c of
          None \<Rightarrow> []
        | Some us \<Rightarrow> if length us = 0 then [] else map urlToStoragePath us)"

definition delete_failed :: response where
  "delete_failed = (500, ErrorBody ''Failed to delete card'')"

text \<open>The handler from line 175 on, given what the fetch of lines 169 to 173 resolved to.\<close>

definition delete_fetched ::
  "card option awaited \<Rightarrow> services \<Rightarrow> card_id \<Rightarrow> world \<Rightarrow> response \<times> world" where
  "delete_fetched fetched svc ident w =
     (case fetched of
        Rejected err \<Rightarrow> (delete_failed, w)
      | Failed fetchError \<Rightarrow> (delete_failed, w)
      | Ok None \<Rightarrow> ((404, ErrorBody ''Card not found''), w)
      | Ok (Some c) \<Rightarrow>
          (case (if 0 < length (imagesToDelete c)
                 then storage_remove svc (imagesToDelete c) w else (Ok (), w)) of
             (Rejected err, w1) \<Rightarrow> (delete_failed, w1)
           | (Failed e, w1) \<Rightarrow>
               (case cards_delete svc ident w1 of
                  (Rejected err, w2) \<Rightarrow> (delete_failed, w2)
                | (Failed deleteError, w2) \<Rightarrow> (delete_failed, w2)
                | (Ok u, w2) \<Rightarrow> ((200, SuccessBody), w2))
           | (Ok u, w1) \<Rightarrow>
               (case cards_delete svc ident w1 of
                  (Rejected err, w2) \<Rightarrow> (delete_failed, w2)
                | (Failed deleteError, w2) \<Rightarrow> (delete_failed, w2)
                | (Ok u, w2) \<Rightarrow> ((200, SuccessBody), w2))))"

definition delete_card :: "services \<Rightarrow> card_id \<Rightarrow> world \<Rightarrow> response \<times> world" where
  "delete_card svc ident w =
     delete_fetched (single (select_cards svc (eq_id ident) w)) svc ident w"

subsection \<open>DELETE /cards/cleanup/expired (lines 205 to 232)\<close>

definition imagesToDelete_expired :: "card \<Rightarrow> string list" where
  "imagesToDelete_expired c =
     (case cover_image_url c of
        None \<Rightarrow> []
      | Some u \<Rightarrow> if u = [] then [] else [urlToStoragePath u])
     @ (case product_image_urls c of
          None \<Rightarrow> []
        | Some us \<Rightarrow> map urlToStoragePath us)"

text \<open>The loop of lines 216 to 225; neither awaited result is looked at.\<close>

fun cleanup_loop ::
  "services \<Rightarrow> card list \<Rightarrow> nat \<Rightarrow> world \<Rightarrow> (js_error + nat) \<times> world" where
  "cleanup_loop svc [] deletedCount w = (Inr deletedCount, w)"
| "cleanup_loop svc (c # rest) deletedCount w =
     (case (if 0 < length (imagesToDelete_expired c)
            then storage_remove svc (imagesToDelete_expired c) w else (Ok (), w)) of
        (Rejected err, w1) \<Rightarrow> (Inl err, w1)
      | (r, w1) \<Rightarrow>
          (case cards_delete svc (card_id c) w1 of
             (Rejected err, w2) \<Rightarrow> (Inl err, w2)
           | (r', w2) \<Rightarrow> cleanup_loop svc rest (deletedCount + 1) w2))"

definition cleanup_failed :: response where
  "cleanup_failed = (500, ErrorBody ''Cleanup failed'')"

definition cleanup_expired :: "services \<Rightarrow> world \<Rightarrow> response \<times> world" where
  "cleanup_expired svc w =
     (case select_cards svc (lt_expires_at (now svc)) w of
        Rejected err \<Rightarrow> (cleanup_failed, w)
      | Failed fetchError \<Rightarrow> (cleanup_failed, w)
      | Ok expired \<Rightarrow>
          (case cleanup_loop svc expired 0 w of
             (Inl err, w') \<Rightarrow> (cleanup_failed, w')
           | (Inr deletedCount, w') \<Rightarrow> ((200, CleanupBody deletedCount), w')))"

subsection \<open>POST /polish (lines 48 to 93)\<close>

text \<open>
  The value of \<open>description\<close> in the parsed JSON body (an object).  \<open>JUndefined\<close> is an
  absent key; \<open>JObject\<close> stands for every array and object.  Of a number only whether
  it is zero matters to the handler.
\<close>

datatype jsval = JUndefined | JNull | JBool bool | JNum int | JStr string | JObject

fun truthy :: "jsval \<Rightarrow> bool" where
  "truthy JUndefined = False"
| "truthy JNull = False"
| "truthy (JBool b) = b"
| "truthy (JNum n) = (n \<noteq> 0)"
| "truthy (JStr s) = (s \<noteq> [])"
| "truthy JObject = True"

text \<open>
  What the request to the text-generation endpoint comes to: \<open>fetch\<close> rejects, or there
  is a reply with a status and a body.  Of the body only
  \<open>choices[i].message.content\<close> is read; \<open>Malformed\<close> is a body that is not JSON or that
  lacks \<open>choices\<close> or \<open>message\<close>.
\<close>

datatype completion = Malformed | Choices "jsval list"

datatype upstream = NetworkError | HttpReply nat completion

record polish_env =
  GROQ_API_KEY :: "string option"
  groq :: "string \<Rightarrow> upstream"

definition polish_prompt :: "string \<Rightarrow> string" where
  "polish_prompt d =
     ''Polish this business/service description to be more professional, engaging, and compelling. '' @
     ''Keep it concise (under 250 words). Maintain the original meaning and key details. '' @
     ''Only return the polished description, no preamble or explanation.'' @
     [CHR 0x0A, CHR 0x0A] @ ''Original description:'' @ [CHR 0x0A] @ d"

definition polish_failed :: response where
  "polish_failed = (500, ErrorBody ''Failed to polish description'')"

definition response_ok :: "nat \<Rightarrow> bool" where
  "response_ok st = (200 \<le> st \<and> st \<le> 299)"

text \<open>The second component lists the prompts sent upstream.\<close>

definition polish :: "polish_env \<Rightarrow> jsval \<Rightarrow> response \<times> string list" where
  "polish env d =
     (if \<not> truthy d then ((400, ErrorBody ''Description is required''), [])
      else case d of
        JStr s \<Rightarrow>
          if trim s = [] then ((400, ErrorBody ''Description is required''), [])
          else if falsy (GROQ_API_KEY env) then ((500, ErrorBody ''AI service not configured''), [])
          else
            (case groq env (polish_prompt s) of
               NetworkError \<Rightarrow> (polish_failed, [polish_prompt s])
             | HttpReply st payload \<Rightarrow>
                 if \<not> response_ok st then (polish_failed, [polish_prompt s])
                 else
                   (case payload of
                      Malformed \<Rightarrow> (polish_failed, [polish_prompt s])
                    | Choices [] \<Rightarrow> (polish_failed, [polish_prompt s])
                    | Choices (JStr content # cs) \<Rightarrow>
                        ((200, PolishedBody (trim content)), [polish_prompt s])
                    | Choices (v # cs) \<Rightarrow> (polish_failed, [polish_prompt s])))
      | _ \<Rightarrow> (polish_failed, []))"

section \<open>Values used in the examples\<close>

definition no_faults :: services where
  "no_faults =
     \<lparr>now = 1000, select_fault = NoFault, upload_fault = (\<lambda>n. NoFault),
      remove_fault = (\<lambda>ps. NoFault), insert_fault = (\<lambda>d. NoFault),
      delete_fault = (\<lambda>i. NoFault), stamp = (\<lambda>n. ''1700000000000-abc1234''),
      project = ''abc'', row_defaults = (\<lambda>d. (''1'', 1000, 2000))\<rparr>"

definition empty_world :: world where
  "empty_world = \<lparr>cards_table = [], calls = []\<rparr>"

definition acme :: cards_body where
  "acme = \<lparr>businessName = Some ''Acme'', employeeName = Some ''Jo'', webpageUrl = None,
            descriptionIn = Some ''Great stuff''\<rparr>"

definition product_png :: upfile where
  "product_png = \<lparr>fieldname = ''productImages'', mimetype = ''image/png'', buffer_size = 2048\<rparr>"

definition no_files :: req_files where
  "no_files = \<lparr>coverImage = None, productImages = None\<rparr>"

definition bare_card :: card where
  "bare_card =
     \<lparr>business_name = ''Acme'', employee_name = ''Jo'', webpage_url = None,
      description = ''Great stuff'', cover_image_url = None, product_image_urls = Some [],
      card_id = ''7'', created_at = 100, expires_at = 500\<rparr>"

definition pictured_card :: card where
  "pictured_card =
     \<lparr>business_name = ''Bolt'', employee_name = ''Al'', webpage_url = Some ''https://bolt.example'',
      description = ''Fast'',
      cover_image_url = Some ''https://abc.supabase.co/storage/v1/object/public/side-quest-images/1-c.png'',
      product_image_urls =
        Some [''https://abc.supabase.co/storage/v1/object/public/side-quest-images/2-p.jpg'',
              ''https://abc.supabase.co/storage/v1/object/public/side-quest-images/3-q.jpg''],
      card_id = ''8'', created_at = 200, expires_at = 600\<rparr>"

definition two_cards :: world where
  "two_cards = \<lparr>cards_table = [bare_card, pictured_card], calls = []\<rparr>"

definition coverless_card :: card where
  "coverless_card =
     \<lparr>business_name = ''Crate'', employee_name = ''Di'', webpage_url = None,
      description = ''Boxes'', cover_image_url = None,
      product_image_urls =
        Some [''https://abc.supabase.co/storage/v1/object/public/side-quest-images/4-r.jpg''],
      card_id = ''9'', created_at = 300, expires_at = 700\<rparr>"

definition three_cards :: world where
  "three_cards = \<lparr>cards_table = [coverless_card, bare_card, pictured_card], calls = []\<rparr>"

definition boom :: js_error where
  "boom = JsError ''storage unavailable''"


definition with_key :: polish_env where
  "with_key =
     \<lparr>GROQ_API_KEY = Some ''gsk_test'',
      groq = (\<lambda>prompt. HttpReply 200 (Choices [JStr ''  Fresh bread daily.  '']))\<rparr>"

definition old_card :: card where
  "old_card =
     \<lparr>business_name = ''Old'', employee_name = ''A'', webpage_url = None, description = ''x'',
      cover_image_url = None, product_image_urls = Some [],
      card_id = ''1'', created_at = 10, expires_at = 1000\<rparr>"

definition mid_card :: card where
  "mid_card =
     \<lparr>business_name = ''Mid'', employee_name = ''B'', webpage_url = None, description = ''y'',
      cover_image_url = None, product_image_urls = Some [],
      card_id = ''2'', created_at = 20, expires_at = 1001\<rparr>"

definition new_card :: card where
  "new_card =
     \<lparr>business_name = ''New'', employee_name = ''C'', webpage_url = None, description = ''z'',
      cover_image_url = None, product_image_urls = Some [],
      card_id = ''3'', created_at = 30, expires_at = 5000\<rparr>"

definition aging :: world where
  "aging = \<lparr>cards_table = [old_card, mid_card, new_card], calls = []\<rparr>"

section \<open>Notions used in the statements\<close>


text \<open>
  The image URLs a card carries (the cover, when it is set, then the product images), and
  the calls that the cleanup of one card is expected to issue: one batch remove of the
  storage paths of all these URLs when there is at least one, then the delete of the row.
  Neither is stated in terms of the lists the handlers build.
\<close>

definition associated_image_urls :: "card \<Rightarrow> string list" where
  "associated_image_urls c =
     (case cover_image_url c of None \<Rightarrow> [] | Some u \<Rightarrow> if u = [] then [] else [u])
     @ (case product_image_urls c of None \<Rightarrow> [] | Some us \<Rightarrow> us)"

definition cleanup_calls :: "card \<Rightarrow> call list" where
  "cleanup_calls c =
     (if associated_image_urls c = [] then []
      else [StorageRemove (map urlToStoragePath (associated_image_urls c))])
     @ [CardsDelete (card_id c)]"

text \<open>A string is blank when it is empty or consists of white space only.\<close>

definition blank :: "string \<Rightarrow> bool" where
  "blank s = (\<forall>c\<in>set s. is_ws c)"

section \<open>The first occurrence of a substring\<close>

lemma indexOf_Some_split:
  "indexOf u m = Some i \<Longrightarrow> u = take i u @ m @ drop (i + length m) u"
proof (induction u arbitrary: i)
  case Nil
  then show ?case by (simp split: if_splits)
next
  case (Cons c cs)
  show ?case
  proof (cases "take (length m) (c # cs) = m")
    case True
    with Cons.prems have "i = 0" by simp
    moreover have "c # cs = take (length m) (c # cs) @ drop (length m) (c # cs)"
      by (simp only: append_take_drop_id)
    ultimately show ?thesis using True by simp
  next
    case False
    with Cons.prems obtain j where j: "indexOf cs m = Some j" "i = Suc j"
      by auto
    from Cons.IH [OF j(1)] j(2) show ?thesis by simp
  qed
qed

lemma indexOf_Some_first:
  "indexOf u m = Some i \<Longrightarrow> j < i \<Longrightarrow> take (length m) (drop j u) \<noteq> m"
proof (induction u arbitrary: i j)
  case Nil
  then show ?case by (simp split: if_splits)
next
  case (Cons c cs)
  from Cons.prems have ne: "take (length m) (c # cs) \<noteq> m"
    by (auto split: if_splits)
  with Cons.prems obtain k where k: "indexOf cs m = Some k" "i = Suc k"
    by auto
  show ?case
  proof (cases j)
    case 0
    with ne show ?thesis by simp
  next
    case (Suc j')
    with Cons.prems k have "j' < k" by simp
    from Cons.IH [OF k(1) this] Suc show ?thesis by simp
  qed
qed

lemma indexOf_None_iff: "indexOf u m = None \<longleftrightarrow> \<not> contains u m"
proof (induction u)
  case Nil
  show ?case by (auto simp: contains_def)
next
  case (Cons c cs)
  show ?case
  proof (cases "take (length m) (c # cs) = m")
    case True
    then have "c # cs = [] @ m @ drop (length m) (c # cs)"
      by (metis append_Nil append_take_drop_id)
    then have "contains (c # cs) m" unfolding contains_def by blast
    with True show ?thesis by simp
  next
    case False
    have "contains (c # cs) m \<longleftrightarrow> contains cs m"
    proof
      assume "contains (c # cs) m"
      then obtain p s where ps: "c # cs = p @ m @ s" unfolding contains_def by blast
      show "contains cs m"
      proof (cases p)
        case Nil
        with ps have "take (length m) (c # cs) = m" by simp
        with False show ?thesis by simp
      next
        case (Cons a p')
        with ps have "cs = p' @ m @ s" by simp
        then show ?thesis unfolding contains_def by blast
      qed
    next
      assume "contains cs m"
      then obtain p s where "cs = p @ m @ s" unfolding contains_def by blast
      then have "c # cs = (c # p) @ m @ s" by simp
      then show "contains (c # cs) m" unfolding contains_def by blast
    qed
    with False Cons.IH show ?thesis by simp
  qed
qed

lemma contains_iff: "contains u m \<longleftrightarrow> indexOf u m \<noteq> None"
  by (simp add: indexOf_None_iff)

lemma indexOf_skip:
  "CHR ''/'' \<notin> set xs \<Longrightarrow>
   indexOf (xs @ ys) marker = map_option (\<lambda>i. length xs + i) (indexOf ys marker)"
proof (induction xs)
  case Nil
  show ?case by (simp add: option.map_ident)
next
  case (Cons x xs)
  then have "x \<noteq> CHR ''/''" by auto
  then have "take (length marker) (x # xs @ ys) \<noteq> marker"
    by (auto simp: marker_def)
  with Cons show ?case by (simp add: option.map_comp comp_def)
qed

lemma drop_whole_prefix: "n = length xs \<Longrightarrow> drop n (xs @ ys) = ys"
  by simp

lemma indexOf_step:
  "take (length m) (c # cs) \<noteq> m \<Longrightarrow> indexOf (c # cs) m = map_option Suc (indexOf cs m)"
  by simp

lemma project_not_marker:
  assumes "CHR ''/'' \<notin> set proj"
  shows "take (length marker) (CHR ''/'' # proj @ CHR ''.'' # rest) \<noteq> marker"
proof
  assume "take (length marker) (CHR ''/'' # proj @ CHR ''.'' # rest) = marker"
  moreover have "length marker = Suc 18"
    by (simp add: marker_def)
  ultimately have "CHR ''/'' # take 18 (proj @ CHR ''.'' # rest) = marker"
    by (simp only: take_Suc_Cons)
  then have eq: "take 18 (proj @ CHR ''.'' # rest) = ''side-quest-images/''"
    by (simp only: marker_def list.inject)
  show False
  proof (cases "length proj < 18")
    case True
    then have "take 18 (proj @ CHR ''.'' # rest) ! length proj = CHR ''.''"
      by (simp add: nth_append del: take_append)
    moreover from True have "length proj < length (take 18 (proj @ CHR ''.'' # rest))"
      by simp
    ultimately have "CHR ''.'' \<in> set (take 18 (proj @ CHR ''.'' # rest))"
      by (metis nth_mem)
    with eq show False by simp
  next
    case False
    then have "take 18 (proj @ CHR ''.'' # rest) = take 18 proj" by simp
    with eq have "set ''side-quest-images/'' \<subseteq> set proj"
      by (metis set_take_subset)
    with assms show False by auto
  qed
qed

lemma indexOf_buildPublicUrl:
  assumes "CHR ''/'' \<notin> set proj"
  shows "indexOf (buildPublicUrl proj F) marker = Some (length proj + 45)"
proof -
  let ?rest = "''supabase.co/storage/v1/object/public/side-quest-images/'' @ F"
  let ?tail = "CHR ''.'' # ?rest"
  have tail: "indexOf ?tail marker = Some 37"
    by (simp add: marker_def)
  have mid: "indexOf (proj @ ?tail) marker = Some (length proj + 37)"
    using indexOf_skip [OF assms, of ?tail] tail by simp
  have s2: "indexOf (CHR ''/'' # proj @ ?tail) marker = Some (Suc (length proj + 37))"
    using indexOf_step [OF project_not_marker [OF assms, of ?rest]] mid by simp
  have "take (length marker) (CHR ''/'' # CHR ''/'' # proj @ ?tail) \<noteq> marker"
    by (simp add: marker_def)
  from indexOf_step [OF this] s2
  have s1: "indexOf (CHR ''/'' # CHR ''/'' # proj @ ?tail) marker
              = Some (Suc (Suc (length proj + 37)))"
    by simp
  have "CHR ''/'' \<notin> set ''https:''" by simp
  from indexOf_skip [OF this, of "CHR ''/'' # CHR ''/'' # proj @ ?tail"] s1
  have "indexOf (''https:'' @ CHR ''/'' # CHR ''/'' # proj @ ?tail) marker
          = Some (length proj + 45)"
    by simp
  moreover have "buildPublicUrl proj F = ''https:'' @ CHR ''/'' # CHR ''/'' # proj @ ?tail"
    by (simp add: buildPublicUrl_def)
  ultimately show ?thesis by simp
qed

lemma indexOf_bound: "indexOf u m = Some i \<Longrightarrow> i + length m \<le> length u"
proof (induction u arbitrary: i)
  case Nil
  then show ?case by (simp split: if_splits)
next
  case (Cons c cs)
  show ?case
  proof (cases "take (length m) (c # cs) = m")
    case True
    have "length (take (length m) (c # cs)) = length m"
      by (rule arg_cong [OF True])
    then have "length m \<le> length (c # cs)"
      by (simp only: length_take)
    with True Cons.prems show ?thesis by simp
  next
    case False
    with Cons.prems obtain j where j: "indexOf cs m = Some j" "i = Suc j"
      by auto
    from Cons.IH [OF j(1)] j(2) show ?thesis by simp
  qed
qed

lemma indexOf_Some_least:
  assumes "indexOf u m = Some i" and "u = p @ m @ s"
  shows "i \<le> length p"
proof (rule ccontr)
  assume "\<not> i \<le> length p"
  then have "length p < i" by simp
  from indexOf_Some_first [OF assms(1) this]
  have "take (length m) (drop (length p) u) \<noteq> m" .
  with assms(2) show False by simp
qed

section \<open>urlToStoragePath\<close>

text \<open>
  C5 (as amended).  \<open>urlToStoragePath\<close> is a function of its argument alone.  It undoes the
  construction of a public URL: for a project name without a slash and every file name
  \<open>F\<close>, \<open>urlToStoragePath (buildPublicUrl proj F) = F\<close>.  On a URL that contains the
  marker it returns what follows the first occurrence of the marker; on an input without
  the marker it returns the input.  Applying it twice gives the same as applying it once
  exactly when the first result no longer contains the marker.
\<close>

theorem urlToStoragePath_left_inverse_first_marker:
  "(CHR ''/'' \<notin> set proj \<longrightarrow> urlToStoragePath (buildPublicUrl proj F) = F)
   \<and> (contains url marker \<longrightarrow>
        (\<exists>p. url = p @ marker @ urlToStoragePath url
           \<and> (\<forall>p' s'. url = p' @ marker @ s' \<longrightarrow> length p \<le> length p')))
   \<and> (\<not> contains url marker \<longrightarrow> urlToStoragePath url = url)
   \<and> (urlToStoragePath (urlToStoragePath url) = urlToStoragePath url
        \<longleftrightarrow> \<not> contains (urlToStoragePath url) marker)"
proof (intro conjI impI)
  assume slash: "CHR ''/'' \<notin> set proj"
  have "urlToStoragePath (buildPublicUrl proj F)
          = drop (length proj + 45 + length marker) (buildPublicUrl proj F)"
    by (simp add: urlToStoragePath_def indexOf_buildPublicUrl [OF slash])
  also have "\<dots> = F"
  proof -
    let ?pre = "''https://'' @ proj @ ''.supabase.co/storage/v1/object/public/side-quest-images/''"
    have "buildPublicUrl proj F = ?pre @ F"
      by (simp add: buildPublicUrl_def)
    moreover have "length proj + 45 + length marker = length ?pre"
      by (simp add: marker_def)
    ultimately show ?thesis
      by (simp only: drop_whole_prefix)
  qed
  finally show "urlToStoragePath (buildPublicUrl proj F) = F" .
next
  assume "contains url marker"
  then obtain i where i: "indexOf url marker = Some i"
    using indexOf_None_iff [of url marker] by (cases "indexOf url marker") auto
  then have path: "urlToStoragePath url = drop (i + length marker) url"
    by (simp add: urlToStoragePath_def)
  have "url = take i url @ marker @ urlToStoragePath url"
    using indexOf_Some_split [OF i] path by simp
  moreover have "\<forall>p' s'. url = p' @ marker @ s' \<longrightarrow> length (take i url) \<le> length p'"
  proof (intro allI impI)
    fix p' s'
    assume "url = p' @ marker @ s'"
    from indexOf_Some_least [OF i this] show "length (take i url) \<le> length p'"
      by simp
  qed
  ultimately show "\<exists>p. url = p @ marker @ urlToStoragePath url
      \<and> (\<forall>p' s'. url = p' @ marker @ s' \<longrightarrow> length p \<le> length p')"
    by blast
next
  assume "\<not> contains url marker"
  then have "indexOf url marker = None"
    by (simp add: indexOf_None_iff)
  then show "urlToStoragePath url = url"
    by (simp add: urlToStoragePath_def)
next
  show "urlToStoragePath (urlToStoragePath url) = urlToStoragePath url
          \<longleftrightarrow> \<not> contains (urlToStoragePath url) marker"
  proof (cases "indexOf (urlToStoragePath url) marker")
    case None
    then show ?thesis
      by (simp add: urlToStoragePath_def [of "urlToStoragePath url"] indexOf_None_iff [symmetric])
  next
    case (Some i)
    from indexOf_bound [OF Some]
    have "i + length marker \<le> length (urlToStoragePath url)" .
    then have "length (drop (i + length marker) (urlToStoragePath url))
                 < length (urlToStoragePath url)"
      by (simp add: marker_def)
    then have "drop (i + length marker) (urlToStoragePath url) \<noteq> urlToStoragePath url"
      by (metis less_irrefl)
    with Some show ?thesis
      by (simp add: urlToStoragePath_def [of "urlToStoragePath url"] indexOf_None_iff [symmetric])
  qed
qed

theorem urlToStoragePath_left_inverse_first_marker_witness:
  "CHR ''/'' \<notin> set ''abc''
   \<and> urlToStoragePath (buildPublicUrl ''abc'' ''17-x9.png'') = ''17-x9.png''
   \<and> contains ''cdn/side-quest-images/a.jpg'' marker
   \<and> (\<exists>p. ''cdn/side-quest-images/a.jpg'' = p @ marker @ urlToStoragePath ''cdn/side-quest-images/a.jpg'')
   \<and> \<not> contains ''17-x9.png'' marker
   \<and> urlToStoragePath ''17-x9.png'' = ''17-x9.png''
   \<and> urlToStoragePath (urlToStoragePath ''cdn/side-quest-images/a.jpg'')
       = urlToStoragePath ''cdn/side-quest-images/a.jpg''"
proof -
  have slash: "CHR ''/'' \<notin> set ''abc''" by simp
  have c1: "contains ''cdn/side-quest-images/a.jpg'' marker"
    by (simp add: contains_iff marker_def)
  have c2: "\<not> contains ''17-x9.png'' marker"
    by (simp add: contains_iff marker_def)
  have c3: "\<not> contains (urlToStoragePath ''cdn/side-quest-images/a.jpg'') marker"
    by (simp add: contains_iff urlToStoragePath_def marker_def)
  note a = urlToStoragePath_left_inverse_first_marker
             [where proj = "''abc''" and F = "''17-x9.png''"
                and url = "''cdn/side-quest-images/a.jpg''"]
  note b = urlToStoragePath_left_inverse_first_marker
             [where proj = "''abc''" and F = "''17-x9.png''" and url = "''17-x9.png''"]
  from a slash have "urlToStoragePath (buildPublicUrl ''abc'' ''17-x9.png'') = ''17-x9.png''"
    by blast
  moreover from a c1
  have "\<exists>p. ''cdn/side-quest-images/a.jpg'' = p @ marker @ urlToStoragePath ''cdn/side-quest-images/a.jpg''"
    by blast
  moreover from b c2 have "urlToStoragePath ''17-x9.png'' = ''17-x9.png''"
    by blast
  moreover from a c3
  have "urlToStoragePath (urlToStoragePath ''cdn/side-quest-images/a.jpg'')
          = urlToStoragePath ''cdn/side-quest-images/a.jpg''"
    by blast
  ultimately show ?thesis using slash c1 c2 by blast
qed

text \<open>
  C5 as stated asks for idempotence on every input.  A string with two occurrences of the
  marker loses one of them at each application.
\<close>

theorem urlToStoragePath_not_idempotent:
  "urlToStoragePath (urlToStoragePath ''/side-quest-images//side-quest-images/x'')
     \<noteq> urlToStoragePath ''/side-quest-images//side-quest-images/x''"
  by (simp add: urlToStoragePath_def marker_def)

section \<open>The upload middleware\<close>

lemma lower_char_idem: "lower_char (lower_char c) = lower_char c"
proof -
  show ?thesis
  proof (cases "(65 \<le> (of_char c :: nat) \<and> (of_char c :: nat) \<le> 90)
          \<or> (192 \<le> (of_char c :: nat) \<and> (of_char c :: nat) \<le> 222 \<and> (of_char c :: nat) \<noteq> 215)")
    case True
    then have 1: "lower_char c = char_of ((of_char c :: nat) + 32)"
      by (simp add: lower_char_def Let_def)
    from True have "(of_char (char_of ((of_char c :: nat) + 32)) :: nat) = of_char c + 32"
      by (auto simp: of_char_of)
    with True show ?thesis
      unfolding 1 by (auto simp add: lower_char_def [of "char_of (of_char c + 32)"] Let_def)
  next
    case False
    then have "lower_char c = c" by (auto simp add: lower_char_def Let_def)
    then show ?thesis by simp
  qed
qed

lemma toLowerCase_idem: "toLowerCase (toLowerCase s) = toLowerCase s"
  by (simp add: toLowerCase_def lower_char_idem)

lemma scan_refuses:
  "\<exists>f\<in>set parts. \<not> fileFilter f \<or> fileSize < buffer_size f
     \<Longrightarrow> \<exists>e. multer_scan parts acc = Inl e"
proof (induction parts arbitrary: acc)
  case Nil
  then show ?case by simp
next
  case (Cons f rest)
  show ?case
  proof (cases "\<not> fileFilter f \<or> fileSize < buffer_size f")
    case True
    then show ?thesis by (auto split: option.splits)
  next
    case False
    with Cons.prems have "\<exists>g\<in>set rest. \<not> fileFilter g \<or> fileSize < buffer_size g"
      by auto
    from Cons.IH [OF this] show ?thesis by (auto split: option.splits)
  qed
qed

lemma scan_counts:
  "multer_scan parts acc = Inr fs \<Longrightarrow> maxCount name = Some n
     \<Longrightarrow> length (filter (\<lambda>g. fieldname g = name) acc) \<le> n
     \<Longrightarrow> length (filter (\<lambda>g. fieldname g = name) (acc @ parts)) \<le> n"
proof (induction parts arbitrary: acc)
  case Nil
  then show ?case by simp
next
  case (Cons f rest)
  from Cons.prems(1) obtain k where k: "maxCount (fieldname f) = Some k"
    by (auto split: option.splits)
  with Cons.prems(1) have lt: "length (filter (\<lambda>g. fieldname g = fieldname f) acc) < k"
    and rest: "multer_scan rest (acc @ [f]) = Inr fs"
    by (auto split: if_splits)
  have "length (filter (\<lambda>g. fieldname g = name) (acc @ [f])) \<le> n"
  proof (cases "fieldname f = name")
    case True
    with k Cons.prems(2) have "k = n" by simp
    with lt True show ?thesis by simp
  next
    case False
    with Cons.prems(3) show ?thesis by simp
  qed
  from Cons.IH [OF rest Cons.prems(2) this] show ?case by simp
qed

lemma scan_accepts:
  "\<forall>f\<in>set parts. fileFilter f \<and> buffer_size f \<le> fileSize \<and> maxCount (fieldname f) \<noteq> None
     \<Longrightarrow> \<forall>name n. maxCount name = Some n
            \<longrightarrow> length (filter (\<lambda>g. fieldname g = name) (acc @ parts)) \<le> n
     \<Longrightarrow> multer_scan parts acc = Inr (acc @ parts)"
proof (induction parts arbitrary: acc)
  case Nil
  then show ?case by simp
next
  case (Cons f rest)
  from Cons.prems(1) obtain k where k: "maxCount (fieldname f) = Some k"
    by auto
  with Cons.prems(2) have "length (filter (\<lambda>g. fieldname g = fieldname f) (acc @ f # rest)) \<le> k"
    by blast
  then have lt: "length (filter (\<lambda>g. fieldname g = fieldname f) acc) < k"
    by simp
  have "multer_scan rest (acc @ [f]) = Inr ((acc @ [f]) @ rest)"
  proof (rule Cons.IH)
    show "\<forall>f\<in>set rest. fileFilter f \<and> buffer_size f \<le> fileSize \<and> maxCount (fieldname f) \<noteq> None"
      using Cons.prems(1) by simp
    show "\<forall>name n. maxCount name = Some n
            \<longrightarrow> length (filter (\<lambda>g. fieldname g = name) ((acc @ [f]) @ rest)) \<le> n"
      using Cons.prems(2) by simp
  qed
  with k lt Cons.prems(1) show ?case by simp
qed

lemma route_refused:
  "multer_scan parts [] = Inl e \<Longrightarrow> post_cards_route svc b parts w = (Inl e, w)"
  by (simp add: post_cards_route_def)

lemma filter_png: "fileFilter product_png"
  by code_simp

lemma filter_upper: "fileFilter (product_png\<lparr>mimetype := ''IMAGE/Jpeg''\<rparr>)"
  by code_simp

lemma filter_gif: "\<not> fileFilter (product_png\<lparr>mimetype := ''image/gif''\<rparr>)"
  by code_simp

text \<open>
  C8.  The file filter accepts a file exactly when its MIME type, in lower case, is
  \<open>image/jpeg\<close>, \<open>image/jpg\<close> or \<open>image/png\<close>, so the case of the letters does not
  matter.  The size limit is 10 MiB.  A request with a file of another type, with a file
  over the limit, or with more than ten product images is refused by the middleware: the
  handler does not run and the world (no upload, no insert) is unchanged.  A request whose
  files all conform and stay within the counts passes the middleware.
\<close>

theorem upload_constraints:
  "(fileFilter f \<longleftrightarrow>
       toLowerCase (mimetype f) = ''image/jpeg'' \<or> toLowerCase (mimetype f) = ''image/jpg''
       \<or> toLowerCase (mimetype f) = ''image/png'')
   \<and> (fileFilter (f\<lparr>mimetype := toLowerCase (mimetype f)\<rparr>) \<longleftrightarrow> fileFilter f)
   \<and> fileSize = 10 * 2 ^ 20
   \<and> ((\<exists>g\<in>set parts. \<not> fileFilter g \<or> fileSize < buffer_size g)
        \<longrightarrow> (\<exists>e. post_cards_route svc b parts w = (Inl e, w)))
   \<and> (10 < length (filter (\<lambda>g. fieldname g = ''productImages'') parts)
        \<longrightarrow> (\<exists>e. post_cards_route svc b parts w = (Inl e, w)))
   \<and> ((\<forall>g\<in>set parts. fileFilter g \<and> buffer_size g \<le> fileSize
                \<and> (fieldname g = ''coverImage'' \<or> fieldname g = ''productImages''))
        \<and> length (filter (\<lambda>g. fieldname g = ''coverImage'') parts) \<le> 1
        \<and> length (filter (\<lambda>g. fieldname g = ''productImages'') parts) \<le> 10
        \<longrightarrow> multer_scan parts [] = Inr parts)"
proof (intro conjI impI)
  show "fileFilter f \<longleftrightarrow>
       toLowerCase (mimetype f) = ''image/jpeg'' \<or> toLowerCase (mimetype f) = ''image/jpg''
       \<or> toLowerCase (mimetype f) = ''image/png''"
    by (simp add: fileFilter_def allowed_def)
next
  show "fileFilter (f\<lparr>mimetype := toLowerCase (mimetype f)\<rparr>) \<longleftrightarrow> fileFilter f"
    by (simp add: fileFilter_def toLowerCase_idem)
next
  show "fileSize = 10 * 2 ^ 20"
    by (simp add: fileSize_def)
next
  assume "\<exists>g\<in>set parts. \<not> fileFilter g \<or> fileSize < buffer_size g"
  from scan_refuses [OF this, of "[]"] obtain e where "multer_scan parts [] = Inl e" ..
  then show "\<exists>e. post_cards_route svc b parts w = (Inl e, w)"
    by (blast intro: route_refused)
next
  assume many: "10 < length (filter (\<lambda>g. fieldname g = ''productImages'') parts)"
  have "\<exists>e. multer_scan parts [] = Inl e"
  proof (cases "multer_scan parts []")
    case (Inl e)
    then show ?thesis by blast
  next
    case (Inr fs)
    have "maxCount ''productImages'' = Some 10" by (simp add: maxCount_def)
    from scan_counts [OF Inr this] many show ?thesis by simp
  qed
  then show "\<exists>e. post_cards_route svc b parts w = (Inl e, w)"
    by (blast intro: route_refused)
next
  assume ok: "(\<forall>g\<in>set parts. fileFilter g \<and> buffer_size g \<le> fileSize
                \<and> (fieldname g = ''coverImage'' \<or> fieldname g = ''productImages''))
        \<and> length (filter (\<lambda>g. fieldname g = ''coverImage'') parts) \<le> 1
        \<and> length (filter (\<lambda>g. fieldname g = ''productImages'') parts) \<le> 10"
  have "multer_scan parts [] = Inr ([] @ parts)"
  proof (rule scan_accepts)
    show "\<forall>f\<in>set parts. fileFilter f \<and> buffer_size f \<le> fileSize \<and> maxCount (fieldname f) \<noteq> None"
      using ok by (auto simp: maxCount_def)
    show "\<forall>name n. maxCount name = Some n
            \<longrightarrow> length (filter (\<lambda>g. fieldname g = name) ([] @ parts)) \<le> n"
      using ok by (auto simp: maxCount_def split: if_splits)
  qed
  then show "multer_scan parts [] = Inr parts" by simp
qed

theorem upload_constraints_witness:
  "fileFilter (product_png\<lparr>mimetype := ''IMAGE/Jpeg''\<rparr>)
   \<and> \<not> fileFilter (product_png\<lparr>mimetype := ''image/gif''\<rparr>)
   \<and> (\<exists>e. post_cards_route no_faults acme [product_png\<lparr>mimetype := ''image/gif''\<rparr>] empty_world
           = (Inl e, empty_world))
   \<and> (\<exists>e. post_cards_route no_faults acme [product_png\<lparr>buffer_size := 10485761\<rparr>] empty_world
           = (Inl e, empty_world))
   \<and> 10 < length (filter (\<lambda>g. fieldname g = ''productImages'') (replicate 11 product_png))
   \<and> (\<exists>e. post_cards_route no_faults acme (replicate 11 product_png) empty_world
           = (Inl e, empty_world))
   \<and> multer_scan (replicate 10 product_png) [] = Inr (replicate 10 product_png)"
proof -
  note gif = upload_constraints
    [where parts = "[product_png\<lparr>mimetype := ''image/gif''\<rparr>]" and svc = no_faults
       and b = acme and w = empty_world]
  note big = upload_constraints
    [where parts = "[product_png\<lparr>buffer_size := 10485761\<rparr>]" and svc = no_faults
       and b = acme and w = empty_world]
  note eleven = upload_constraints
    [where parts = "replicate 11 product_png" and svc = no_faults and b = acme and w = empty_world]
  note ten = upload_constraints
    [where parts = "replicate 10 product_png" and svc = no_faults and b = acme and w = empty_world]
  have h1: "\<exists>g\<in>set [product_png\<lparr>mimetype := ''image/gif''\<rparr>]. \<not> fileFilter g \<or> fileSize < buffer_size g"
    using filter_gif by simp
  have h2: "\<exists>g\<in>set [product_png\<lparr>buffer_size := 10485761\<rparr>]. \<not> fileFilter g \<or> fileSize < buffer_size g"
    by (simp add: fileSize_def product_png_def)
  have h3: "10 < length (filter (\<lambda>g. fieldname g = ''productImages'') (replicate 11 product_png))"
    by (simp add: product_png_def)
  have h4: "(\<forall>g\<in>set (replicate 10 product_png). fileFilter g \<and> buffer_size g \<le> fileSize
                \<and> (fieldname g = ''coverImage'' \<or> fieldname g = ''productImages''))
        \<and> length (filter (\<lambda>g. fieldname g = ''coverImage'') (replicate 10 product_png)) \<le> 1
        \<and> length (filter (\<lambda>g. fieldname g = ''productImages'') (replicate 10 product_png)) \<le> 10"
    using filter_png by (simp add: product_png_def fileSize_def)
  from gif h1 have "\<exists>e. post_cards_route no_faults acme [product_png\<lparr>mimetype := ''image/gif''\<rparr>] empty_world
           = (Inl e, empty_world)" by blast
  moreover from big h2 have "\<exists>e. post_cards_route no_faults acme [product_png\<lparr>buffer_size := 10485761\<rparr>] empty_world
           = (Inl e, empty_world)" by blast
  moreover from eleven h3 have "\<exists>e. post_cards_route no_faults acme (replicate 11 product_png) empty_world
           = (Inl e, empty_world)" by blast
  moreover from ten h4 have "multer_scan (replicate 10 product_png) [] = Inr (replicate 10 product_png)"
    by blast
  ultimately show ?thesis using filter_upper filter_gif h3 by blast
qed

section \<open>POST /cards\<close>






text \<open>
  C1 (as amended).  When \<open>businessName\<close>, \<open>employeeName\<close> or \<open>description\<close> is missing or is
  the empty string, the handler answers 400 with the message that the three fields are
  required, and the world is unchanged: no image was uploaded and no row inserted, also
  for the whole route.
\<close>

theorem post_cards_missing_required:
  assumes "falsy (businessName b) \<or> falsy (employeeName b) \<or> falsy (descriptionIn b)"
  shows "post_cards svc b files w
           = ((400, ErrorBody ''businessName, employeeName, and description are required''), w)
         \<and> snd (post_cards_route svc b parts w) = w"
proof -
  from assms have h: "post_cards svc b fs w = (required_missing, w)" for fs
    by (auto simp: post_cards_def falsy_def split: option.splits)
  then have "post_cards svc b files w
           = ((400, ErrorBody ''businessName, employeeName, and description are required''), w)"
    by (simp add: required_missing_def)
  moreover have "snd (post_cards_route svc b parts w) = w"
    by (simp add: post_cards_route_def h split: sum.splits)
  ultimately show ?thesis by simp
qed

theorem post_cards_missing_required_witness:
  "falsy (descriptionIn (acme\<lparr>descriptionIn := Some ''''\<rparr>))
   \<and> post_cards no_faults (acme\<lparr>descriptionIn := Some ''''\<rparr>) no_files empty_world
       = ((400, ErrorBody ''businessName, employeeName, and description are required''), empty_world)
   \<and> falsy (businessName (acme\<lparr>businessName := None\<rparr>))
   \<and> calls (snd (post_cards_route no_faults (acme\<lparr>businessName := None\<rparr>) [product_png] empty_world)) = []"
proof -
  have h1: "falsy (descriptionIn (acme\<lparr>descriptionIn := Some ''''\<rparr>))"
    by (simp add: falsy_def)
  have h2: "falsy (businessName (acme\<lparr>businessName := None\<rparr>))"
    by (simp add: falsy_def)
  from h1 have a: "falsy (businessName (acme\<lparr>descriptionIn := Some ''''\<rparr>))
      \<or> falsy (employeeName (acme\<lparr>descriptionIn := Some ''''\<rparr>))
      \<or> falsy (descriptionIn (acme\<lparr>descriptionIn := Some ''''\<rparr>))" by simp
  from h2 have b: "falsy (businessName (acme\<lparr>businessName := None\<rparr>))
      \<or> falsy (employeeName (acme\<lparr>businessName := None\<rparr>))
      \<or> falsy (descriptionIn (acme\<lparr>businessName := None\<rparr>))" by simp
  from post_cards_missing_required [OF a, of no_faults no_files empty_world]
       post_cards_missing_required [OF b, of no_faults no_files empty_world "[product_png]"]
       h1 h2
  show ?thesis by (simp add: empty_world_def)
qed

text \<open>
  C1 as stated also covers values that are empty only after trimming.  A business name of
  three spaces trims to the empty string, yet the submission is answered 201 and the row
  is inserted with the name as given.
\<close>

theorem post_cards_whitespace_only_accepted:
  "trim ''   '' = []
   \<and> fst (post_cards no_faults (acme\<lparr>businessName := Some ''   ''\<rparr>) no_files empty_world)
       = (201, CardBody \<lparr>business_name = ''   '', employee_name = ''Jo'', webpage_url = None,
                          description = ''Great stuff'', cover_image_url = None,
                          product_image_urls = Some [], card_id = ''1'', created_at = 1000,
                          expires_at = 2000\<rparr>)
   \<and> calls (snd (post_cards no_faults (acme\<lparr>businessName := Some ''   ''\<rparr>) no_files empty_world))
       = [CardsInsert \<lparr>business_name = ''   '', employee_name = ''Jo'', webpage_url = None,
                       description = ''Great stuff'', cover_image_url = None,
                       product_image_urls = Some []\<rparr>]"
  by (simp add: trim_def is_ws_def post_cards_def acme_def create_card_def upload_cover_def
        no_files_def cards_insert_def no_faults_def empty_world_def logged_def stored_def falsy_def)



section \<open>DELETE /cards/:id\<close>

lemma imagesToDelete_paths: "imagesToDelete c = map urlToStoragePath (associated_image_urls c)"
  by (auto simp: imagesToDelete_def associated_image_urls_def split: option.splits)

lemma imagesToDelete_expired_paths:
  "imagesToDelete_expired c = map urlToStoragePath (associated_image_urls c)"
  by (auto simp: imagesToDelete_expired_def associated_image_urls_def split: option.splits)

lemma fetch_present:
  "select_fault svc = NoFault \<Longrightarrow> eq_id ident (cards_table w) = [c]
     \<Longrightarrow> single (select_cards svc (eq_id ident) w) = Ok (Some c)"
  by (simp add: single_def select_cards_def)

lemma fetch_absent:
  "eq_id ident (cards_table w) = []
     \<Longrightarrow> \<exists>e. single (select_cards svc (eq_id ident) w) = Failed e
           \<or> single (select_cards svc (eq_id ident) w) = Rejected e"
  by (cases "select_fault svc") (simp_all add: single_def select_cards_def)

lemma single_never_null: "single r \<noteq> Ok None"
  by (auto simp: single_def split: awaited.splits list.splits)

lemma delete_fetched_null:
  "delete_fetched (Ok None) svc ident w = ((404, ErrorBody ''Card not found''), w)"
  by (simp add: delete_fetched_def)

lemma delete_card_not_404: "fst (fst (delete_card svc ident w)) \<noteq> 404"
proof (cases "single (select_cards svc (eq_id ident) w)")
  case (Rejected e)
  then show ?thesis by (simp add: delete_card_def delete_fetched_def delete_failed_def)
next
  case (Failed e)
  then show ?thesis by (simp add: delete_card_def delete_fetched_def delete_failed_def)
next
  case (Ok v)
  with single_never_null [of "select_cards svc (eq_id ident) w"] obtain c where "v = Some c"
    by (cases v) auto
  with Ok show ?thesis
    by (auto simp: delete_card_def delete_fetched_def delete_failed_def storage_remove_def
          cards_delete_def Let_def split: fault.splits)
qed

lemma cards_delete_calls:
  "calls (snd (cards_delete svc ident w)) = calls w @ [CardsDelete ident]"
  by (simp add: cards_delete_def Let_def logged_def split: fault.splits)

lemma delete_never_throws_calls:
  "calls (snd (case cards_delete svc ident w1 of
                 (Rejected err, w2) \<Rightarrow> (delete_failed, w2)
               | (Failed deleteError, w2) \<Rightarrow> (delete_failed, w2)
               | (Ok u, w2) \<Rightarrow> ((200, SuccessBody), w2)))
     = calls w1 @ [CardsDelete ident]"
  by (simp add: cards_delete_def Let_def logged_def split: fault.splits)

lemma pictured_paths: "imagesToDelete pictured_card = [''1-c.png'', ''2-p.jpg'', ''3-q.jpg'']"
  by (simp add: imagesToDelete_def pictured_card_def urlToStoragePath_def marker_def)

lemma pictured_urls: "associated_image_urls pictured_card \<noteq> []"
  by (simp add: associated_image_urls_def pictured_card_def)

lemma fetch_pictured: "eq_id ''8'' (cards_table two_cards) = [pictured_card]"
  by (simp add: eq_id_def two_cards_def bare_card_def pictured_card_def)

lemma fetch_bare: "eq_id ''7'' (cards_table two_cards) = [bare_card]"
  by (simp add: eq_id_def two_cards_def bare_card_def pictured_card_def)

text \<open>
  C2.  The handler has a branch that answers 404 with \<open>Card not found\<close> when the fetch
  resolves to no card and no error (\<open>delete_fetched_null\<close>), but the fetch ends in
  \<open>.single()\<close>, which resolves with an error when no row matches.  For an id without a
  row the error is thrown at line 175 and the answer is 500 with \<open>Failed to delete card\<close>;
  no storage call and no delete call is issued (the world is unchanged).
\<close>

theorem delete_missing_card:
  assumes "eq_id ident (cards_table w) = []"
  shows "delete_card svc ident w = ((500, ErrorBody ''Failed to delete card''), w)"
  using fetch_absent [OF assms, of svc]
  by (auto simp: delete_card_def delete_fetched_def delete_failed_def)

theorem delete_missing_card_witness:
  "eq_id ''999'' (cards_table two_cards) = []
   \<and> delete_card no_faults ''999'' two_cards = ((500, ErrorBody ''Failed to delete card''), two_cards)"
proof -
  have h: "eq_id ''999'' (cards_table two_cards) = []"
    by (simp add: eq_id_def two_cards_def bare_card_def pictured_card_def)
  from delete_missing_card [OF h, of no_faults] h show ?thesis by simp
qed

text \<open>
  C3 (as amended).  For an existing card, the paths to delete are the storage paths of
  its image URLs, cover first.  With at least one image URL and a storage call that does
  not throw, the handler issues one batch remove with all the paths and after it the
  delete of the row.  When the storage call throws, the answer is 500, the remove is the
  only call and the table is unchanged.  With no image URL, no storage call is issued and
  the row is deleted.
\<close>

theorem delete_existing_card:
  assumes "select_fault svc = NoFault" and "eq_id ident (cards_table w) = [c]"
  shows "imagesToDelete c = map urlToStoragePath (associated_image_urls c)
    \<and> (associated_image_urls c \<noteq> [] \<and> (\<forall>e. remove_fault svc (imagesToDelete c) \<noteq> Thrown e)
         \<longrightarrow> calls (snd (delete_card svc ident w))
               = calls w @ [StorageRemove (imagesToDelete c), CardsDelete ident])
    \<and> (associated_image_urls c \<noteq> [] \<and> remove_fault svc (imagesToDelete c) = Thrown e
         \<longrightarrow> delete_card svc ident w
               = ((500, ErrorBody ''Failed to delete card''),
                  w\<lparr>calls := calls w @ [StorageRemove (imagesToDelete c)]\<rparr>))
    \<and> (associated_image_urls c = []
         \<longrightarrow> calls (snd (delete_card svc ident w)) = calls w @ [CardsDelete ident])"
proof (intro conjI impI)
  show "imagesToDelete c = map urlToStoragePath (associated_image_urls c)"
    by (rule imagesToDelete_paths)
next
  assume a: "associated_image_urls c \<noteq> [] \<and> (\<forall>e. remove_fault svc (imagesToDelete c) \<noteq> Thrown e)"
  then have ne: "imagesToDelete c \<noteq> []" by (simp add: imagesToDelete_paths)
  from a show "calls (snd (delete_card svc ident w))
               = calls w @ [StorageRemove (imagesToDelete c), CardsDelete ident]"
    by (cases "remove_fault svc (imagesToDelete c)")
       (simp_all add: delete_card_def fetch_present [OF assms] delete_fetched_def ne
          storage_remove_def Let_def delete_never_throws_calls logged_def)
next
  assume a: "associated_image_urls c \<noteq> [] \<and> remove_fault svc (imagesToDelete c) = Thrown e"
  then have ne: "imagesToDelete c \<noteq> []" by (simp add: imagesToDelete_paths)
  from a show "delete_card svc ident w
               = ((500, ErrorBody ''Failed to delete card''),
                  w\<lparr>calls := calls w @ [StorageRemove (imagesToDelete c)]\<rparr>)"
    by (simp add: delete_card_def fetch_present [OF assms] delete_fetched_def ne
          storage_remove_def Let_def logged_def delete_failed_def)
next
  assume "associated_image_urls c = []"
  then have "imagesToDelete c = []" by (simp add: imagesToDelete_paths)
  then show "calls (snd (delete_card svc ident w)) = calls w @ [CardsDelete ident]"
    by (simp add: delete_card_def fetch_present [OF assms] delete_fetched_def
          delete_never_throws_calls)
qed

theorem delete_existing_card_witness:
  "select_fault no_faults = NoFault
   \<and> eq_id ''8'' (cards_table two_cards) = [pictured_card]
   \<and> associated_image_urls pictured_card \<noteq> []
   \<and> imagesToDelete pictured_card = [''1-c.png'', ''2-p.jpg'', ''3-q.jpg'']
   \<and> calls (snd (delete_card no_faults ''8'' two_cards))
       = [StorageRemove [''1-c.png'', ''2-p.jpg'', ''3-q.jpg''], CardsDelete ''8'']
   \<and> delete_card (no_faults\<lparr>remove_fault := \<lambda>ps. Thrown boom\<rparr>) ''8'' two_cards
       = ((500, ErrorBody ''Failed to delete card''),
          two_cards\<lparr>calls := [StorageRemove [''1-c.png'', ''2-p.jpg'', ''3-q.jpg'']]\<rparr>)
   \<and> calls (snd (delete_card no_faults ''7'' two_cards)) = [CardsDelete ''7'']"
proof -
  let ?bad = "no_faults\<lparr>remove_fault := \<lambda>ps. Thrown boom\<rparr>"
  have s1: "select_fault no_faults = NoFault" by (simp add: no_faults_def)
  have s2: "select_fault ?bad = NoFault" by (simp add: no_faults_def)
  have nt: "\<forall>e. remove_fault no_faults (imagesToDelete pictured_card) \<noteq> Thrown e"
    by (simp add: no_faults_def)
  have th: "remove_fault ?bad (imagesToDelete pictured_card) = Thrown boom"
    by simp
  have nb: "associated_image_urls bare_card = []"
    by (simp add: associated_image_urls_def bare_card_def)
  have c0: "calls two_cards = []" by (simp add: two_cards_def)
  from delete_existing_card [OF s1 fetch_pictured] pictured_urls nt
  have a: "calls (snd (delete_card no_faults ''8'' two_cards))
       = calls two_cards @ [StorageRemove (imagesToDelete pictured_card), CardsDelete ''8'']"
    by blast
  from delete_existing_card [OF s2 fetch_pictured, of boom] pictured_urls th
  have b: "delete_card ?bad ''8'' two_cards
       = ((500, ErrorBody ''Failed to delete card''),
          two_cards\<lparr>calls := calls two_cards @ [StorageRemove (imagesToDelete pictured_card)]\<rparr>)"
    by blast
  from delete_existing_card [OF s1 fetch_bare] nb
  have c: "calls (snd (delete_card no_faults ''7'' two_cards)) = calls two_cards @ [CardsDelete ''7'']"
    by blast
  from a b c s1 fetch_pictured pictured_urls show ?thesis
    by (simp add: pictured_paths c0)
qed

text \<open>
  C3 as stated promises exactly one batch storage call for every existing card.  A card
  without images is deleted with no storage call at all.
\<close>

theorem delete_card_without_images_no_storage_call:
  "eq_id ''7'' (cards_table two_cards) = [bare_card]
   \<and> length (associated_image_urls bare_card) = 0
   \<and> delete_card no_faults ''7'' two_cards
       = ((200, SuccessBody), \<lparr>cards_table = [pictured_card], calls = [CardsDelete ''7'']\<rparr>)"
  by (simp add: eq_id_def two_cards_def bare_card_def pictured_card_def associated_image_urls_def
        delete_card_def delete_fetched_def single_def select_cards_def no_faults_def
        imagesToDelete_def cards_delete_def logged_def)

section \<open>DELETE /cards/cleanup/expired\<close>

lemma cleanup_loop_no_throw:
  assumes "\<forall>ps e. remove_fault svc ps \<noteq> Thrown e" and "\<forall>i e. delete_fault svc i \<noteq> Thrown e"
  shows "\<exists>w'. cleanup_loop svc cs n w = (Inr (n + length cs), w')
            \<and> calls w' = calls w @ concat (map cleanup_calls cs)"
proof (induction cs arbitrary: n w)
  case Nil
  show ?case by simp
next
  case (Cons c rest)
  let ?imgs = "imagesToDelete_expired c"
  obtain r1 w1 where s: "(if 0 < length ?imgs then storage_remove svc ?imgs w else (Ok (), w)) = (r1, w1)"
    by (cases "if 0 < length ?imgs then storage_remove svc ?imgs w else (Ok (), w)")
  have r1: "\<forall>e. r1 \<noteq> Rejected e"
    using s assms(1) by (auto simp: storage_remove_def Let_def split: if_splits fault.splits)
  have c1: "calls w1 = calls w @ (if ?imgs = [] then [] else [StorageRemove ?imgs])"
    using s by (auto simp: storage_remove_def Let_def logged_def split: if_splits fault.splits)
  obtain r2 w2 where d: "cards_delete svc (card_id c) w1 = (r2, w2)"
    by (cases "cards_delete svc (card_id c) w1")
  have r2: "\<forall>e. r2 \<noteq> Rejected e"
    using d assms(2) by (auto simp: cards_delete_def Let_def split: fault.splits)
  have c2: "calls w2 = calls w1 @ [CardsDelete (card_id c)]"
    using cards_delete_calls [of svc "card_id c" w1] d by simp
  have step: "cleanup_loop svc (c # rest) n w = cleanup_loop svc rest (n + 1) w2"
    using s d r1 r2 by (cases r1; cases r2) simp_all
  from Cons.IH [of "n + 1" w2] obtain w' where
    "cleanup_loop svc rest (n + 1) w2 = (Inr (n + 1 + length rest), w')"
    "calls w' = calls w2 @ concat (map cleanup_calls rest)"
    by blast
  moreover have "cleanup_calls c
      = (if ?imgs = [] then [] else [StorageRemove ?imgs]) @ [CardsDelete (card_id c)]"
    by (simp add: cleanup_calls_def imagesToDelete_expired_paths)
  ultimately have "cleanup_loop svc (c # rest) n w = (Inr (n + length (c # rest)), w')
      \<and> calls w' = calls w @ concat (map cleanup_calls (c # rest))"
    using step c1 c2 by simp
  then show ?case by blast
qed

lemma cleanup_loop_table_removed:
  assumes "\<forall>ps. remove_fault svc ps = NoFault" and "\<forall>i. delete_fault svc i = NoFault"
  shows "cards_table (snd (cleanup_loop svc cs n w))
           = filter (\<lambda>r. card_id r \<notin> card_id ` set cs) (cards_table w)"
proof (induction cs arbitrary: n w)
  case Nil
  show ?case by simp
next
  case (Cons c rest)
  let ?imgs = "imagesToDelete_expired c"
  let ?w1 = "if 0 < length ?imgs then logged (StorageRemove ?imgs) w else w"
  let ?w2 = "(logged (CardsDelete (card_id c)) ?w1)
               \<lparr>cards_table := filter (\<lambda>r. card_id r \<noteq> card_id c) (cards_table w)\<rparr>"
  have "cleanup_loop svc (c # rest) n w = cleanup_loop svc rest (n + 1) ?w2"
    using assms by (simp add: storage_remove_def cards_delete_def Let_def logged_def)
  moreover have "cards_table ?w2 = filter (\<lambda>r. card_id r \<noteq> card_id c) (cards_table w)"
    by simp
  ultimately show ?case
    using Cons.IH [of "n + 1" ?w2] by (auto intro: filter_cong)
qed



lemma cleanup_calls_bare: "cleanup_calls bare_card = [CardsDelete ''7'']"
  by (simp add: cleanup_calls_def associated_image_urls_def bare_card_def)

lemma cleanup_calls_pictured:
  "cleanup_calls pictured_card
     = [StorageRemove [''1-c.png'', ''2-p.jpg'', ''3-q.jpg''], CardsDelete ''8'']"
  by (simp add: cleanup_calls_def associated_image_urls_def pictured_card_def
        urlToStoragePath_def marker_def)

lemma expired_three_cards:
  "lt_expires_at (now no_faults) (cards_table three_cards)
     = [coverless_card, bare_card, pictured_card]"
  by (simp add: lt_expires_at_def no_faults_def three_cards_def coverless_card_def bare_card_def
        pictured_card_def)

lemma cleanup_calls_coverless:
  "cleanup_calls coverless_card = [StorageRemove [''4-r.jpg''], CardsDelete ''9'']"
  by (simp add: cleanup_calls_def associated_image_urls_def coverless_card_def
        urlToStoragePath_def marker_def)

text \<open>
  C4.  When the fetch of the expired cards and every per-card call succeed, the cleanup
  answers 200 with \<open>deleted\<close> equal to the number of expired cards returned; its calls are,
  card by card in the order returned, one batch remove of the storage paths of all the
  card's image URLs (the cover, when set, and every product image; no remove when the card
  has no image URL) and then the delete of its row; and the rows of the expired cards are
  gone.  A card without images counts like any other.
\<close>

theorem cleanup_in_order:
  assumes "select_fault svc = NoFault"
      and "\<forall>ps. remove_fault svc ps = NoFault"
      and "\<forall>i. delete_fault svc i = NoFault"
      and "expired = lt_expires_at (now svc) (cards_table w)"
  shows "fst (cleanup_expired svc w) = (200, CleanupBody (length expired))
    \<and> calls (snd (cleanup_expired svc w)) = calls w @ concat (map cleanup_calls expired)
    \<and> cards_table (snd (cleanup_expired svc w))
        = filter (\<lambda>r. card_id r \<notin> card_id ` set expired) (cards_table w)"
proof -
  have nt: "\<forall>ps e. remove_fault svc ps \<noteq> Thrown e" "\<forall>i e. delete_fault svc i \<noteq> Thrown e"
    using assms(2,3) by simp_all
  from cleanup_loop_no_throw [OF nt, of expired 0 w] obtain w' where
    loop: "cleanup_loop svc expired 0 w = (Inr (length expired), w')"
    and tr: "calls w' = calls w @ concat (map cleanup_calls expired)"
    by auto
  have run: "cleanup_expired svc w = ((200, CleanupBody (length expired)), w')"
    using assms(1,4) loop by (simp add: cleanup_expired_def select_cards_def)
  have "cards_table w' = filter (\<lambda>r. card_id r \<notin> card_id ` set expired) (cards_table w)"
    using cleanup_loop_table_removed [OF assms(2,3), of expired 0 w] loop by simp
  with run tr show ?thesis by simp
qed

theorem cleanup_in_order_witness:
  "select_fault no_faults = NoFault
   \<and> [coverless_card, bare_card, pictured_card]
       = lt_expires_at (now no_faults) (cards_table three_cards)
   \<and> fst (cleanup_expired no_faults three_cards) = (200, CleanupBody 3)
   \<and> calls (snd (cleanup_expired no_faults three_cards))
       = [StorageRemove [''4-r.jpg''], CardsDelete ''9'',
          CardsDelete ''7'',
          StorageRemove [''1-c.png'', ''2-p.jpg'', ''3-q.jpg''], CardsDelete ''8'']
   \<and> cards_table (snd (cleanup_expired no_faults three_cards)) = []"
proof -
  have s: "select_fault no_faults = NoFault" by (simp add: no_faults_def)
  have r: "\<forall>ps. remove_fault no_faults ps = NoFault" by (simp add: no_faults_def)
  have d: "\<forall>i. delete_fault no_faults i = NoFault" by (simp add: no_faults_def)
  have t: "filter (\<lambda>r. card_id r \<notin> card_id ` set [coverless_card, bare_card, pictured_card])
             (cards_table three_cards) = []"
    by (simp add: three_cards_def)
  from cleanup_in_order [OF s r d expired_three_cards [symmetric]] s expired_three_cards t
  show ?thesis
    by (simp add: cleanup_calls_coverless cleanup_calls_bare cleanup_calls_pictured
          three_cards_def)
qed



section \<open>POST /polish\<close>

lemma dropWhile_Nil_iff: "dropWhile P xs = [] \<longleftrightarrow> (\<forall>x\<in>set xs. P x)"
  by (induction xs) auto

lemma trim_Nil_iff: "trim s = [] \<longleftrightarrow> blank s"
proof
  assume "trim s = []"
  then have "dropWhile is_ws (rev (dropWhile is_ws s)) = []"
    by (simp add: trim_def)
  then have "\<forall>c\<in>set (dropWhile is_ws s). is_ws c"
    by (simp add: dropWhile_Nil_iff)
  then have "dropWhile is_ws s = []"
    by (cases "dropWhile is_ws s") (auto simp: dropWhile_eq_Cons_conv)
  then show "blank s"
    by (simp add: dropWhile_Nil_iff blank_def)
next
  assume "blank s"
  then have "dropWhile is_ws s = []"
    by (simp add: dropWhile_Nil_iff blank_def)
  then show "trim s = []"
    by (simp only: trim_def rev.simps dropWhile.simps)
qed

lemma blank_spaces: "blank ''   ''"
  by (simp add: blank_def is_ws_def)

lemma not_blank_bread: "\<not> blank ''Bread''"
  by (simp add: blank_def is_ws_def)

text \<open>
  C6.  A description that is missing, null, empty or blank is answered 400 with
  \<open>Description is required\<close> and nothing is sent upstream.  With a description that is not
  blank and no credential configured, the answer is 500 and nothing is sent upstream.
  With a credential, when the upstream request fails or is answered with a status outside
  200 to 299, the answer is 500.  When the upstream answer is a success whose first choice
  carries a string, the answer is 200 with that string trimmed and otherwise as it is.
\<close>

theorem polish_contract:
  "(d = JUndefined \<or> d = JNull \<or> (d = JStr s \<and> blank s)
      \<longrightarrow> polish env d = ((400, ErrorBody ''Description is required''), []))
   \<and> (d = JStr s \<and> \<not> blank s \<and> (GROQ_API_KEY env = None \<or> GROQ_API_KEY env = Some [])
      \<longrightarrow> polish env d = ((500, ErrorBody ''AI service not configured''), []))
   \<and> (d = JStr s \<and> \<not> blank s \<and> GROQ_API_KEY env = Some k \<and> k \<noteq> []
        \<and> (groq env (polish_prompt s) = NetworkError
             \<or> (groq env (polish_prompt s) = HttpReply st payload \<and> \<not> response_ok st))
      \<longrightarrow> polish env d = ((500, ErrorBody ''Failed to polish description''), [polish_prompt s]))
   \<and> (d = JStr s \<and> \<not> blank s \<and> GROQ_API_KEY env = Some k \<and> k \<noteq> []
        \<and> groq env (polish_prompt s) = HttpReply st (Choices (JStr content # others))
        \<and> response_ok st
      \<longrightarrow> polish env d = ((200, PolishedBody (trim content)), [polish_prompt s]))"
proof (intro conjI impI)
  assume "d = JUndefined \<or> d = JNull \<or> (d = JStr s \<and> blank s)"
  then show "polish env d = ((400, ErrorBody ''Description is required''), [])"
    by (auto simp: polish_def trim_Nil_iff)
next
  assume "d = JStr s \<and> \<not> blank s \<and> (GROQ_API_KEY env = None \<or> GROQ_API_KEY env = Some [])"
  moreover from this have "s \<noteq> []" by (auto simp: blank_def)
  ultimately show "polish env d = ((500, ErrorBody ''AI service not configured''), [])"
    by (auto simp: polish_def trim_Nil_iff falsy_def)
next
  assume a: "d = JStr s \<and> \<not> blank s \<and> GROQ_API_KEY env = Some k \<and> k \<noteq> []
        \<and> (groq env (polish_prompt s) = NetworkError
             \<or> (groq env (polish_prompt s) = HttpReply st payload \<and> \<not> response_ok st))"
  then have "s \<noteq> []" by (auto simp: blank_def)
  with a show "polish env d = ((500, ErrorBody ''Failed to polish description''), [polish_prompt s])"
    by (auto simp: polish_def trim_Nil_iff falsy_def polish_failed_def)
next
  assume a: "d = JStr s \<and> \<not> blank s \<and> GROQ_API_KEY env = Some k \<and> k \<noteq> []
        \<and> groq env (polish_prompt s) = HttpReply st (Choices (JStr content # others))
        \<and> response_ok st"
  then have "s \<noteq> []" by (auto simp: blank_def)
  with a show "polish env d = ((200, PolishedBody (trim content)), [polish_prompt s])"
    by (auto simp: polish_def trim_Nil_iff falsy_def)
qed

theorem polish_contract_witness:
  "blank ''   ''
   \<and> polish with_key (JStr ''   '') = ((400, ErrorBody ''Description is required''), [])
   \<and> polish with_key JUndefined = ((400, ErrorBody ''Description is required''), [])
   \<and> \<not> blank ''Bread''
   \<and> polish (with_key\<lparr>GROQ_API_KEY := None\<rparr>) (JStr ''Bread'')
       = ((500, ErrorBody ''AI service not configured''), [])
   \<and> polish (with_key\<lparr>groq := \<lambda>p. HttpReply 503 Malformed\<rparr>) (JStr ''Bread'')
       = ((500, ErrorBody ''Failed to polish description''), [polish_prompt ''Bread''])
   \<and> polish with_key (JStr ''Bread'')
       = ((200, PolishedBody ''Fresh bread daily.''), [polish_prompt ''Bread''])"
proof -
  let ?down = "with_key\<lparr>groq := \<lambda>p. HttpReply 503 Malformed\<rparr>"
  have k: "GROQ_API_KEY with_key = Some ''gsk_test'' \<and> ''gsk_test'' \<noteq> []"
    by (simp add: with_key_def)
  have k': "GROQ_API_KEY ?down = Some ''gsk_test''"
    by (simp add: with_key_def)
  have g: "groq with_key (polish_prompt ''Bread'')
             = HttpReply 200 (Choices (JStr ''  Fresh bread daily.  '' # []))"
    by (simp add: with_key_def)
  have g': "groq ?down (polish_prompt ''Bread'') = HttpReply 503 Malformed \<and> \<not> response_ok 503"
    by (simp add: response_ok_def)
  have ok: "response_ok 200" by (simp add: response_ok_def)
  have t: "trim ''  Fresh bread daily.  '' = ''Fresh bread daily.''"
    by (simp add: trim_def is_ws_def)
  from polish_contract [of "JStr ''   ''" "''   ''" with_key] blank_spaces
  have a: "polish with_key (JStr ''   '') = ((400, ErrorBody ''Description is required''), [])"
    by blast
  from polish_contract [of JUndefined "[]" with_key]
  have b: "polish with_key JUndefined = ((400, ErrorBody ''Description is required''), [])"
    by blast
  from polish_contract [of "JStr ''Bread''" "''Bread''" "with_key\<lparr>GROQ_API_KEY := None\<rparr>"]
       not_blank_bread
  have c: "polish (with_key\<lparr>GROQ_API_KEY := None\<rparr>) (JStr ''Bread'')
       = ((500, ErrorBody ''AI service not configured''), [])"
    by simp
  from polish_contract [of "JStr ''Bread''" "''Bread''" ?down "''gsk_test''" 503 Malformed]
       not_blank_bread k' g'
  have d: "polish ?down (JStr ''Bread'')
       = ((500, ErrorBody ''Failed to polish description''), [polish_prompt ''Bread''])"
    by simp
  from polish_contract [of "JStr ''Bread''" "''Bread''" with_key "''gsk_test''" 200 _
         "''  Fresh bread daily.  ''" "[]"]
       not_blank_bread k g ok
  have e: "polish with_key (JStr ''Bread'')
       = ((200, PolishedBody (trim ''  Fresh bread daily.  '')), [polish_prompt ''Bread''])"
    by simp
  from a b c d e blank_spaces not_blank_bread show ?thesis
    by (simp only: t simp_thms)
qed

section \<open>GET /cards\<close>

lemma order_desc_sorted:
  "sorted_wrt (\<lambda>a b. created_at b \<le> created_at a) (order_created_at_desc rows)"
proof -
  have "sorted (map (\<lambda>c. - created_at c) (sort_key (\<lambda>c. - created_at c) rows))"
    by (rule sorted_sort_key)
  then show ?thesis
    by (simp add: order_created_at_desc_def sorted_map)
qed

lemma order_desc_mset: "mset (order_created_at_desc rows) = mset rows"
  by (simp add: order_created_at_desc_def)

lemma get_cards_aging: "get_cards no_faults aging = (200, CardsBody [new_card, mid_card])"
  by (simp add: get_cards_def select_cards_def no_faults_def aging_def gt_expires_at_def
        order_created_at_desc_def old_card_def mid_card_def new_card_def)

text \<open>
  C7.  Whenever GET /cards answers with a list of cards, the status is 200 and the list
  holds exactly the rows of the table whose \<open>expires_at\<close> is later than the time of the
  call (with their multiplicities), in descending order of \<open>created_at\<close>; no card of the
  list has \<open>expires_at\<close> at or before the time of the call.  Such an answer is given
  whenever the query succeeds; otherwise the answer is 500.
\<close>

theorem list_active:
  "(get_cards svc w = (st, CardsBody rows) \<longrightarrow>
       st = 200
       \<and> mset rows = filter_mset (\<lambda>c. now svc < expires_at c) (mset (cards_table w))
       \<and> sorted_wrt (\<lambda>a b. created_at b \<le> created_at a) rows
       \<and> (\<forall>c\<in>set rows. \<not> expires_at c \<le> now svc))
   \<and> (select_fault svc = NoFault \<longrightarrow> (\<exists>rows. get_cards svc w = (200, CardsBody rows)))
   \<and> (select_fault svc \<noteq> NoFault \<longrightarrow> get_cards svc w = (500, ErrorBody ''Failed to fetch cards''))"
proof (intro conjI impI)
  assume a: "get_cards svc w = (st, CardsBody rows)"
  then have st: "st = 200"
    and rows: "rows = order_created_at_desc (gt_expires_at (now svc) (cards_table w))"
    by (auto simp: get_cards_def select_cards_def split: fault.splits)
  show "st = 200" by (rule st)
  show m: "mset rows = filter_mset (\<lambda>c. now svc < expires_at c) (mset (cards_table w))"
    by (simp add: rows order_desc_mset gt_expires_at_def)
  show "sorted_wrt (\<lambda>a b. created_at b \<le> created_at a) rows"
    by (simp add: rows order_desc_sorted)
  have "set rows = set_mset (mset rows)" by simp
  also have "\<dots> = {c \<in> set (cards_table w). now svc < expires_at c}"
    by (simp only: m) auto
  finally show "\<forall>c\<in>set rows. \<not> expires_at c \<le> now svc" by auto
next
  assume "select_fault svc = NoFault"
  then show "\<exists>rows. get_cards svc w = (200, CardsBody rows)"
    by (simp add: get_cards_def select_cards_def)
next
  assume "select_fault svc \<noteq> NoFault"
  then show "get_cards svc w = (500, ErrorBody ''Failed to fetch cards'')"
    by (cases "select_fault svc") (simp_all add: get_cards_def select_cards_def)
qed

theorem list_active_witness:
  "select_fault no_faults = NoFault
   \<and> now no_faults = 1000
   \<and> expires_at old_card = 1000
   \<and> get_cards no_faults aging = (200, CardsBody [new_card, mid_card])
   \<and> sorted_wrt (\<lambda>a b. created_at b \<le> created_at a) [new_card, mid_card]
   \<and> mset [new_card, mid_card]
       = filter_mset (\<lambda>c. now no_faults < expires_at c) (mset (cards_table aging))"
proof -
  have s: "select_fault no_faults = NoFault" and n: "now no_faults = 1000"
    by (simp_all add: no_faults_def)
  have o: "expires_at old_card = 1000" by (simp add: old_card_def)
  from list_active [of no_faults aging 200 "[new_card, mid_card]"] get_cards_aging
  have "mset [new_card, mid_card]
          = filter_mset (\<lambda>c. now no_faults < expires_at c) (mset (cards_table aging))
        \<and> sorted_wrt (\<lambda>a b. created_at b \<le> created_at a) [new_card, mid_card]"
    by blast
  with s n o get_cards_aging show ?thesis by blast
qed

end
